theory Spec2Isabelle
  imports Main "HOL-Library.Sublist"
begin

section \<open>The Menu state machine of headlessui\<close>

text \<open>
  The development embeds the reducer of the Menu component, the hook
  \<^verbatim>\<open>useMenuContext\<close> and the helper \<^verbatim>\<open>compareNumbers\<close>. JavaScript numbers that
  serve as array indices are integers here (\<open>-1\<close> is the "not found" of \<^verbatim>\<open>findIndex\<close>
  and \<^verbatim>\<open>indexOf\<close>); \<^verbatim>\<open>null\<close> is \<open>None\<close>.
\<close>

subsection \<open>Data model\<close>

datatype MenuStates = Open | Closed

text \<open>
  \<^verbatim>\<open>MenuItemDataRef = MutableRefObject<{ textValue?: string; disabled: boolean }>\<close>.
  A ref is an address; what \<^verbatim>\<open>dataRef.current\<close> holds at the time of a dispatch is read
  from a heap. The reducer only reads the heap: the Item widget writes it.
\<close>

record itemData =
  textValue :: "string option"
  disabled :: bool

type_synonym ref = nat

type_synonym heap = "ref \<Rightarrow> itemData"

text \<open>
  An entry \<^verbatim>\<open>{ id, dataRef }\<close> of \<^verbatim>\<open>state.items\<close>. The field \<open>obj\<close> is the identity
  of the JavaScript object: \<^verbatim>\<open>indexOf\<close> compares entries with \<^verbatim>\<open>===\<close>, that is by
  identity, and two records are the same object exactly when they are equal here.
\<close>

record item =
  obj :: nat
  item_id :: string
  dataRef :: ref

typedecl event

type_synonym ShouldClose = "event \<Rightarrow> bool"

record StateDefinition =
  menuState :: MenuStates
  buttonRef :: ref
  itemsRef :: ref
  items :: "item list"
  searchQuery :: string
  activeItemIndex :: "int option"
  shouldClose :: ShouldClose

text \<open>
  The enum \<^verbatim>\<open>Focus\<close> is imported from \<^verbatim>\<open>utils/calculate-active-index\<close>; its
  members are the six that the widgets dispatch. A \<^verbatim>\<open>GoToItem\<close> action carries an id
  exactly when its focus is \<^verbatim>\<open>Focus.Specific\<close>.
\<close>

datatype Focus = First | Previous | Next | Last | Specific string | Nothing

datatype MenuActions =
    CloseMenu
  | OpenMenu
  | GoToItem Focus
  | Search string
  | ClearSearch
  | RegisterItem string ref
  | UnregisterItem string
  | SetShouldClose "ShouldClose option"

text \<open>The resolvers handed to \<^verbatim>\<open>calculateActiveIndex\<close>.\<close>

record 'a resolvers =
  resolveItems :: "unit \<Rightarrow> 'a list"
  resolveActiveIndex :: "unit \<Rightarrow> int option"
  resolveId :: "'a \<Rightarrow> string"
  resolveDisabled :: "'a \<Rightarrow> bool"

type_synonym calculate = "Focus \<Rightarrow> item resolvers \<Rightarrow> int option"

subsection \<open>Array and string primitives\<close>

text \<open>\<^verbatim>\<open>Array.prototype.findIndex\<close>: the first index whose element satisfies \<open>p\<close>, else \<open>-1\<close>.\<close>

fun findIndexFrom :: "int \<Rightarrow> ('a \<Rightarrow> bool) \<Rightarrow> 'a list \<Rightarrow> int" where
  "findIndexFrom k p [] = - 1"
| "findIndexFrom k p (x # xs) = (if p x then k else findIndexFrom (k + 1) p xs)"

definition findIndex :: "('a \<Rightarrow> bool) \<Rightarrow> 'a list \<Rightarrow> int" where
  "findIndex p xs = findIndexFrom 0 p xs"

text \<open>The result of reading \<^verbatim>\<open>xs[i]\<close>, or the \<^verbatim>\<open>null\<close> the reducer puts in its place.\<close>

datatype 'a js_value = Null | Undefined | Object 'a

definition at_index :: "'a list \<Rightarrow> int \<Rightarrow> 'a js_value" where
  "at_index xs i = (if 0 \<le> i \<and> i < int (length xs) then Object (xs ! nat i) else Undefined)"

text \<open>\<^verbatim>\<open>Array.prototype.indexOf\<close>: no array element is \<^verbatim>\<open>undefined\<close> or \<^verbatim>\<open>null\<close>.\<close>

definition indexOf :: "'a list \<Rightarrow> 'a js_value \<Rightarrow> int" where
  "indexOf xs v = findIndex (\<lambda>x. Object x = v) xs"

text \<open>\<^verbatim>\<open>xs.splice(idx, 1)\<close> for an index \<open>idx\<close> that \<^verbatim>\<open>findIndex\<close> returned.\<close>

definition splice1 :: "int \<Rightarrow> 'a list \<Rightarrow> 'a list" where
  "splice1 idx xs = take (nat idx) xs @ drop (Suc (nat idx)) xs"

definition startsWith :: "string \<Rightarrow> string \<Rightarrow> bool" where
  "startsWith t q = (take (length q) t = q)"

text \<open>
  \<^verbatim>\<open>String.prototype.toLowerCase\<close> is JavaScript's own function, with the case tables of
  Unicode behind it: the reducer takes it as the parameter \<open>lower\<close>, and what is proved of
  the reducer holds of every function in its place.
\<close>

type_synonym lowering = "string \<Rightarrow> string"

subsection \<open>The reducers\<close>

definition closeMenu :: "StateDefinition \<Rightarrow> StateDefinition" where
  "closeMenu state =
     (if menuState state = Closed then state
      else state\<lparr>activeItemIndex := None, menuState := Closed\<rparr>)"

definition openMenu :: "StateDefinition \<Rightarrow> StateDefinition" where
  "openMenu state =
     (if menuState state = Open then state else state\<lparr>menuState := Open\<rparr>)"

text \<open>
  \<^verbatim>\<open>calculateActiveIndex\<close> is imported; the reducer takes it as the parameter
  \<open>calc\<close>.
\<close>

definition goToItem :: "calculate \<Rightarrow> heap \<Rightarrow> StateDefinition \<Rightarrow> Focus \<Rightarrow> StateDefinition" where
  "goToItem calc h state action =
     (let activeItemIndex' =
            calc action
              \<lparr>resolveItems = (\<lambda>_. items state),
               resolveActiveIndex = (\<lambda>_. activeItemIndex state),
               resolveId = item_id,
               resolveDisabled = (\<lambda>item. disabled (h (dataRef item)))\<rparr>
      in if searchQuery state = '''' \<and> activeItemIndex state = activeItemIndex' then state
         else state\<lparr>searchQuery := '''', activeItemIndex := activeItemIndex'\<rparr>)"

text \<open>
  The predicate of the \<^verbatim>\<open>findIndex\<close> in \<^verbatim>\<open>Search\<close>:
  \<^verbatim>\<open>textValue?.startsWith(searchQuery) && !disabled\<close>; an absent \<^verbatim>\<open>textValue\<close>
  makes it falsy.
\<close>

definition searchMatches :: "heap \<Rightarrow> string \<Rightarrow> item \<Rightarrow> bool" where
  "searchMatches h q it =
     ((case textValue (h (dataRef it)) of None \<Rightarrow> False | Some t \<Rightarrow> startsWith t q)
      \<and> \<not> disabled (h (dataRef it)))"

definition search :: "lowering \<Rightarrow> heap \<Rightarrow> StateDefinition \<Rightarrow> string \<Rightarrow> StateDefinition" where
  "search lower h state v =
     (let searchQuery' = searchQuery state @ lower v;
          match = findIndex (searchMatches h searchQuery') (items state)
      in if match = - 1 \<or> Some match = activeItemIndex state
         then state\<lparr>searchQuery := searchQuery'\<rparr>
         else state\<lparr>searchQuery := searchQuery', activeItemIndex := Some match\<rparr>)"

definition clearSearch :: "StateDefinition \<Rightarrow> StateDefinition" where
  "clearSearch state =
     (if searchQuery state = '''' then state else state\<lparr>searchQuery := ''''\<rparr>)"

text \<open>
  The object literal of \<^verbatim>\<open>RegisterItem\<close> allocates a new entry: it is identical to
  no entry of the list, so its identity lies past all of theirs.
\<close>

definition newObj :: "item list \<Rightarrow> nat" where
  "newObj xs = foldr (\<lambda>x m. max (Suc (obj x)) m) xs 0"

definition registerItem :: "StateDefinition \<Rightarrow> string \<Rightarrow> ref \<Rightarrow> StateDefinition" where
  "registerItem state ident r =
     state\<lparr>items := items state @ [\<lparr>obj = newObj (items state), item_id = ident, dataRef = r\<rparr>]\<rparr>"

definition unregisterItem :: "StateDefinition \<Rightarrow> string \<Rightarrow> StateDefinition" where
  "unregisterItem state ident =
     (let currentActiveItem =
            (case activeItemIndex state of
               None \<Rightarrow> Null
             | Some i \<Rightarrow> at_index (items state) i);
          idx = findIndex (\<lambda>a. item_id a = ident) (items state);
          nextItems = (if idx \<noteq> - 1 then splice1 idx (items state) else items state)
      in state\<lparr>items := nextItems,
               activeItemIndex :=
                 (if Some idx = activeItemIndex state then None
                  else if currentActiveItem = Null then None
                  else Some (indexOf nextItems currentActiveItem))\<rparr>)"

text \<open>
  \<^verbatim>\<open>state.shouldClose === action.shouldClose\<close> compares function objects; the state's
  predicate is never \<^verbatim>\<open>undefined\<close>. Either branch leaves a given predicate in the
  field, so comparing the functions themselves changes no field of the result.
\<close>

definition setShouldClose :: "StateDefinition \<Rightarrow> ShouldClose option \<Rightarrow> StateDefinition" where
  "setShouldClose state sc =
     (if Some (shouldClose state) = sc then state
      else state\<lparr>shouldClose := (case sc of None \<Rightarrow> (\<lambda>_. True) | Some p \<Rightarrow> p)\<rparr>)"

text \<open>\<^verbatim>\<open>stateReducer\<close>: \<^verbatim>\<open>match\<close> selects the reducer of the action's type.\<close>

fun stateReducer ::
  "calculate \<Rightarrow> lowering \<Rightarrow> heap \<Rightarrow> StateDefinition \<Rightarrow> MenuActions \<Rightarrow> StateDefinition" where
  "stateReducer calc lower h state CloseMenu = closeMenu state"
| "stateReducer calc lower h state OpenMenu = openMenu state"
| "stateReducer calc lower h state (GoToItem focus) = goToItem calc h state focus"
| "stateReducer calc lower h state (Search v) = search lower h state v"
| "stateReducer calc lower h state ClearSearch = clearSearch state"
| "stateReducer calc lower h state (RegisterItem ident r) = registerItem state ident r"
| "stateReducer calc lower h state (UnregisterItem ident) = unregisterItem state ident"
| "stateReducer calc lower h state (SetShouldClose sc) = setShouldClose state sc"

text \<open>The state \<^verbatim>\<open>Menu\<close> hands to \<^verbatim>\<open>useReducer\<close>.\<close>

definition initialState :: "ref \<Rightarrow> ref \<Rightarrow> ShouldClose option \<Rightarrow> StateDefinition" where
  "initialState b i sc =
     \<lparr>menuState = Closed, buttonRef = b, itemsRef = i, items = [], searchQuery = '''',
      activeItemIndex = None,
      shouldClose = (case sc of None \<Rightarrow> (\<lambda>_. True) | Some p \<Rightarrow> p)\<rparr>"

text \<open>
  A run of the reducer: each dispatch comes with the heap of its moment, since the
  widgets may write \<^verbatim>\<open>dataRef.current\<close> between two dispatches.
\<close>

definition dispatchAll ::
  "calculate \<Rightarrow> lowering \<Rightarrow> StateDefinition \<Rightarrow> (heap \<times> MenuActions) list \<Rightarrow> StateDefinition" where
  "dispatchAll calc lower state steps = foldl (\<lambda>s (h, a). stateReducer calc lower h s a) state steps"

subsection \<open>compareNumbers\<close>

text \<open>
  A JavaScript number is \<^verbatim>\<open>NaN\<close> or a value of a linear order; \<^verbatim>\<open><\<close> and \<^verbatim>\<open>>\<close>
  are false as soon as one side is \<^verbatim>\<open>NaN\<close>. An absent argument (\<^verbatim>\<open>undefined\<close> or
  \<^verbatim>\<open>null\<close>, which \<^verbatim>\<open>!= null\<close> does not tell apart) is \<open>None\<close>.
\<close>

datatype 'a number = NaN | Num 'a

fun js_less :: "('a::linorder) number \<Rightarrow> 'a number \<Rightarrow> bool" where
  "js_less (Num x) (Num y) = (x < y)"
| "js_less _ _ = False"

definition compareNumbers :: "('a::linorder) number option \<Rightarrow> 'a number option \<Rightarrow> int" where
  "compareNumbers a b =
     (case (a, b) of
        (Some x, Some y) \<Rightarrow> (if js_less x y then - 1 else if js_less y x then 1 else 0)
      | (Some x, None) \<Rightarrow> 1
      | (None, Some y) \<Rightarrow> - 1
      | (None, None) \<Rightarrow> 0)"

subsection \<open>useMenuContext\<close>

datatype error = Error string

definition Menu_name :: string where
  "Menu_name = ''Menu''"

text \<open>
  The ambient context is \<^verbatim>\<open>null\<close> outside a provider; the \<^verbatim>\<open>throw\<close> is the \<open>Inl\<close>
  result.
\<close>

definition useMenuContext :: "string option \<Rightarrow> 'c option \<Rightarrow> error + 'c" where
  "useMenuContext component context =
     (case context of
        None \<Rightarrow>
          Inl (Error (''<'' @ (case component of None \<Rightarrow> ''Unknown'' | Some c \<Rightarrow> c)
                      @ '' /> is missing a parent <'' @ Menu_name @ '' /> component.''))
      | Some ctx \<Rightarrow> Inr ctx)"

subsection \<open>calculateActiveIndex\<close>

text \<open>The last index whose element satisfies \<open>p\<close>, else \<open>-1\<close>.\<close>

definition findLastIndex :: "('a \<Rightarrow> bool) \<Rightarrow> 'a list \<Rightarrow> int" where
  "findLastIndex p xs =
     (let r = findIndex p (rev xs) in if r = - 1 then - 1 else int (length xs) - 1 - r)"

text \<open>
  Modelled from the spec: the function \<^verbatim>\<open>calculateActiveIndex\<close> of
  \<^verbatim>\<open>utils/calculate-active-index\<close>, which is not among the sources. The spec describes
  it as "a shared calculate active index algorithm supporting directional moves
  (first/last/next/previous/nothing) and direct selection by id, skipping disabled items",
  and says that "GoToItem with First/Last always lands on the first/last non-disabled item,
  or leaves index null if none exist". Where the spec is silent (no enabled item further in
  the direction of Next or Previous, no item of the given id) the model keeps the current
  index, the "no-op" of the spec's section on errors.
\<close>

definition calculateActiveIndex :: "Focus \<Rightarrow> 'a resolvers \<Rightarrow> int option" where
  "calculateActiveIndex action resolvers =
     (let its = resolveItems resolvers ();
          current = resolveActiveIndex resolvers ();
          enabled = (\<lambda>x. \<not> resolveDisabled resolvers x);
          indexed = zip (map int [0..<length its]) its;
          orNull = (\<lambda>r. if r = - 1 then None else Some r);
          orCurrent = (\<lambda>r. if r = - 1 then current else Some r)
      in case action of
           First \<Rightarrow> orNull (findIndex enabled its)
         | Last \<Rightarrow> orNull (findLastIndex enabled its)
         | Next \<Rightarrow>
             orCurrent (findIndex
               (\<lambda>(j, x). (case current of None \<Rightarrow> True | Some a \<Rightarrow> a < j) \<and> enabled x) indexed)
         | Previous \<Rightarrow>
             orCurrent (findLastIndex
               (\<lambda>(j, x). (case current of None \<Rightarrow> True | Some a \<Rightarrow> j < a) \<and> enabled x) indexed)
         | Specific ident \<Rightarrow> orCurrent (findIndex (\<lambda>x. resolveId resolvers x = ident) its)
         | Nothing \<Rightarrow> None)"

subsection \<open>Predicates of the specification\<close>

text \<open>The two actions by which items mount and unmount.\<close>

fun isRegistration :: "MenuActions \<Rightarrow> bool" where
  "isRegistration (RegisterItem ident r) = True"
| "isRegistration (UnregisterItem ident) = True"
| "isRegistration a = False"

text \<open>
  The invariant of the active index: \<^verbatim>\<open>null\<close>, or the index of an entry of the list
  whose \<^verbatim>\<open>dataRef.current.disabled\<close> is false.
\<close>

definition activeItemOk :: "heap \<Rightarrow> StateDefinition \<Rightarrow> bool" where
  "activeItemOk h s =
     (case activeItemIndex s of
        None \<Rightarrow> True
      | Some i \<Rightarrow> 0 \<le> i \<and> i < int (length (items s)) \<and> \<not> disabled (h (dataRef (items s ! nat i))))"

text \<open>
  The label of an entry starts with the buffer \<open>q\<close>, compared as the strings are; and
  the comparison that ignores case, for the reading in which type-ahead is case-insensitive
  on whatever the state holds.
\<close>

definition labelStartsWith :: "heap \<Rightarrow> string \<Rightarrow> item \<Rightarrow> bool" where
  "labelStartsWith h q it =
     (case textValue (h (dataRef it)) of None \<Rightarrow> False | Some t \<Rightarrow> prefix q t)"

definition caseInsensitiveStartsWith :: "lowering \<Rightarrow> string \<Rightarrow> string \<Rightarrow> bool" where
  "caseInsensitiveStartsWith lower t q = startsWith (lower t) (lower q)"

abbreviation isFirstIndex :: "('a \<Rightarrow> bool) \<Rightarrow> 'a list \<Rightarrow> nat \<Rightarrow> bool" where
  "isFirstIndex p xs j \<equiv> j < length xs \<and> p (xs ! j) \<and> (\<forall>k<j. \<not> p (xs ! k))"

abbreviation isLastIndex :: "('a \<Rightarrow> bool) \<Rightarrow> 'a list \<Rightarrow> nat \<Rightarrow> bool" where
  "isLastIndex p xs j \<equiv> j < length xs \<and> p (xs ! j) \<and> (\<forall>k<length xs. j < k \<longrightarrow> \<not> p (xs ! k))"

subsection \<open>Example states\<close>

text \<open>
  The examples are on ASCII text, where \<^verbatim>\<open>toLowerCase\<close> turns the letters A to Z into
  a to z and keeps every other character; they take the lowering function in this form.
\<close>

definition lowerChar :: "char \<Rightarrow> char" where
  "lowerChar c =
     (case map_of (zip ''ABCDEFGHIJKLMNOPQRSTUVWXYZ'' ''abcdefghijklmnopqrstuvwxyz'') c of
        None \<Rightarrow> c
      | Some d \<Rightarrow> d)"

definition asciiLowerCase :: lowering where
  "asciiLowerCase s = map lowerChar s"

text \<open>
  A menu of three items, the second one disabled, with the third one active; and the
  dispatches of a menu whose first item unmounts before a third one mounts.
\<close>

definition exHeap :: heap where
  "exHeap r =
     (if r = 0 then \<lparr>textValue = Some ''apple'', disabled = False\<rparr>
      else if r = 1 then \<lparr>textValue = Some ''avocado'', disabled = True\<rparr>
      else if r = 2 then \<lparr>textValue = Some ''banana'', disabled = False\<rparr>
      else \<lparr>textValue = None, disabled = False\<rparr>)"

definition exItems :: "item list" where
  "exItems =
     [\<lparr>obj = 0, item_id = ''item-1'', dataRef = 0\<rparr>,
      \<lparr>obj = 1, item_id = ''item-2'', dataRef = 1\<rparr>,
      \<lparr>obj = 2, item_id = ''item-3'', dataRef = 2\<rparr>]"

definition exState :: StateDefinition where
  "exState =
     \<lparr>menuState = Open, buttonRef = 10, itemsRef = 11, items = exItems, searchQuery = '''',
      activeItemIndex = Some 2, shouldClose = (\<lambda>_. True)\<rparr>"

definition exSteps :: "(heap \<times> MenuActions) list" where
  "exSteps =
     [(exHeap, RegisterItem ''item-1'' 0), (exHeap, UnregisterItem ''item-1''),
      (exHeap, RegisterItem ''item-3'' 2)]"

text \<open>The heap in which every item is disabled.\<close>

definition allDisabled :: heap where
  "allDisabled r = \<lparr>textValue = Some ''apple'', disabled = True\<rparr>"

text \<open>
  Two items registered under one id, the first of them disabled; a typed letter makes the
  second one active.
\<close>

definition dupSteps :: "(heap \<times> MenuActions) list" where
  "dupSteps =
     [(exHeap, RegisterItem ''item-1'' 1), (exHeap, RegisterItem ''item-1'' 0),
      (exHeap, Search ''A'')]"

definition dupState :: StateDefinition where
  "dupState = dispatchAll (\<lambda>f r. None) asciiLowerCase (initialState 10 11 None) dupSteps"

text \<open>An item whose stored label has a capital letter.\<close>

definition capHeap :: heap where
  "capHeap r = \<lparr>textValue = Some ''Apple'', disabled = False\<rparr>"

definition capState :: StateDefinition where
  "capState =
     \<lparr>menuState = Open, buttonRef = 10, itemsRef = 11,
      items = [\<lparr>obj = 0, item_id = ''item-1'', dataRef = 0\<rparr>], searchQuery = '''',
      activeItemIndex = None, shouldClose = (\<lambda>_. True)\<rparr>"

section \<open>Properties\<close>

subsection \<open>findIndex, indexOf and splice\<close>

lemma findIndexFrom_cases:
  "(findIndexFrom k p xs = - 1 \<and> (\<forall>x\<in>set xs. \<not> p x))
   \<or> (\<exists>j<length xs. findIndexFrom k p xs = k + int j \<and> p (xs ! j) \<and> (\<forall>i<j. \<not> p (xs ! i)))"
proof (induction xs arbitrary: k)
  case Nil
  show ?case by simp
next
  case (Cons x xs)
  show ?case
  proof (cases "p x")
    case True
    then have "findIndexFrom k p (x # xs) = k + int 0 \<and> p ((x # xs) ! 0)
               \<and> (\<forall>i<0. \<not> p ((x # xs) ! i))"
      by simp
    then show ?thesis by blast
  next
    case False
    from Cons.IH [of "k + 1"] show ?thesis
    proof
      assume "findIndexFrom (k + 1) p xs = - 1 \<and> (\<forall>x\<in>set xs. \<not> p x)"
      with False show ?thesis by simp
    next
      assume "\<exists>j<length xs. findIndexFrom (k + 1) p xs = k + 1 + int j \<and> p (xs ! j)
                \<and> (\<forall>i<j. \<not> p (xs ! i))"
      then obtain j where j: "j < length xs" "findIndexFrom (k + 1) p xs = k + 1 + int j"
        "p (xs ! j)" "\<forall>i<j. \<not> p (xs ! i)"
        by blast
      have "\<forall>i<Suc j. \<not> p ((x # xs) ! i)"
        using False j(4) by (auto simp add: nth_Cons split: nat.splits)
      with False j have "Suc j < length (x # xs) \<and> findIndexFrom k p (x # xs) = k + int (Suc j)
          \<and> p ((x # xs) ! Suc j) \<and> (\<forall>i<Suc j. \<not> p ((x # xs) ! i))"
        by simp
      then show ?thesis by blast
    qed
  qed
qed

lemma findIndex_cases:
  "(findIndex p xs = - 1 \<and> (\<forall>x\<in>set xs. \<not> p x))
   \<or> (\<exists>j<length xs. findIndex p xs = int j \<and> p (xs ! j) \<and> (\<forall>i<j. \<not> p (xs ! i)))"
  using findIndexFrom_cases [of 0 p xs] by (simp add: findIndex_def)

lemma findIndex_none: "(findIndex p xs = - 1) = (\<forall>x\<in>set xs. \<not> p x)"
  using findIndex_cases [of p xs] nth_mem [of _ xs] by fastforce

lemma findIndex_found:
  "findIndex p xs \<noteq> - 1 \<Longrightarrow>
     \<exists>j<length xs. findIndex p xs = int j \<and> p (xs ! j) \<and> (\<forall>i<j. \<not> p (xs ! i))"
  using findIndex_cases [of p xs] by blast

lemma findIndex_eqI:
  assumes "j < length xs" and "p (xs ! j)" and "\<forall>k<j. \<not> p (xs ! k)"
  shows "findIndex p xs = int j"
proof -
  from assms(1,2) have "findIndex p xs \<noteq> - 1"
    by (auto simp add: findIndex_none)
  then obtain j' where j': "j' < length xs" "findIndex p xs = int j'" "p (xs ! j')"
    "\<forall>i<j'. \<not> p (xs ! i)"
    using findIndex_found by blast
  have "\<not> j' < j" using assms(3) j'(3) by blast
  moreover have "\<not> j < j'" using j'(4) assms(2) by blast
  ultimately show ?thesis using j'(2) by simp
qed

lemma findIndex_mem:
  "x \<in> set xs \<Longrightarrow> p x \<Longrightarrow> \<exists>j<length xs. findIndex p xs = int j \<and> p (xs ! j)"
proof -
  assume "x \<in> set xs" "p x"
  then have "findIndex p xs \<noteq> - 1" by (auto simp add: findIndex_none)
  then show ?thesis using findIndex_found [of p xs] by blast
qed

lemma indexOf_mem:
  assumes "x \<in> set ys"
  shows "\<exists>j<length ys. indexOf ys (Object x) = int j \<and> ys ! j = x \<and> (\<forall>k<j. ys ! k \<noteq> x)"
proof -
  from assms have "findIndex (\<lambda>y. Object y = Object x) ys \<noteq> - 1"
    by (simp add: findIndex_none)
  from findIndex_found [OF this] show ?thesis
    by (simp add: indexOf_def)
qed

lemma splice1_nth:
  assumes "k < length xs" and "j < length xs - 1"
  shows "(take k xs @ drop (Suc k) xs) ! j = (if j < k then xs ! j else xs ! Suc j)"
proof (cases "j < k")
  case True
  with assms show ?thesis by (simp add: nth_append)
next
  case False
  with assms have "(take k xs @ drop (Suc k) xs) ! j = drop (Suc k) xs ! (j - k)"
    by (simp add: nth_append min_def)
  also from False assms have "\<dots> = xs ! Suc j" by simp
  finally show ?thesis using False by simp
qed

lemma splice1_keeps:
  assumes "n < length xs" and "k < length xs" and "n \<noteq> k"
  shows "xs ! n \<in> set (take k xs @ drop (Suc k) xs)"
proof (cases "n < k")
  case True
  with assms have "xs ! n = take k xs ! n" "n < length (take k xs)" by simp_all
  then have "xs ! n \<in> set (take k xs)" by (metis nth_mem)
  then show ?thesis by simp
next
  case False
  with assms have k: "Suc k \<le> n" by simp
  then have "xs ! n = drop (Suc k) xs ! (n - Suc k)" using assms by simp
  moreover have "n - Suc k < length (drop (Suc k) xs)" using assms k by simp
  ultimately have "xs ! n \<in> set (drop (Suc k) xs)" by (metis nth_mem)
  then show ?thesis by simp
qed

lemma splice1_distinct:
  assumes "distinct xs"
  shows "distinct (take k xs @ drop (Suc k) xs)"
  using assms set_take_disj_set_drop_if_distinct [of xs k "Suc k"] by simp

subsection \<open>Strings\<close>

lemma lowerChar_simps: "lowerChar CHR ''A'' = CHR ''a''" "lowerChar CHR ''a'' = CHR ''a''"
  by (simp_all add: lowerChar_def)

lemma startsWith_prefix: "startsWith t q = prefix q t"
  by (auto simp add: startsWith_def prefix_def) (metis append_take_drop_id)

lemma searchMatches_iff:
  "searchMatches h q it = (\<not> disabled (h (dataRef it)) \<and> labelStartsWith h q it)"
  by (auto simp add: searchMatches_def labelStartsWith_def startsWith_prefix split: option.splits)

subsection \<open>RegisterItem and UnregisterItem\<close>

lemma newObj_fresh: "x \<in> set xs \<Longrightarrow> obj x < newObj xs"
  by (induction xs) (auto simp add: newObj_def)

text \<open>
  C9. RegisterItem appends one entry, made of the action's id and dataRef, at the end of
  the item list: the entries before it are the old list, and the new entry is a new
  object, identical to none of them. Every other field of the state (menuState,
  searchQuery, activeItemIndex, shouldClose and the two refs) is unchanged; so a state
  whose active index is null keeps it null, whatever the new item's disabled flag.
\<close>

theorem registerItem_appends:
  "butlast (items (stateReducer calc lower h s (RegisterItem ident r))) = items s
   \<and> length (items (stateReducer calc lower h s (RegisterItem ident r))) = Suc (length (items s))
   \<and> item_id (last (items (stateReducer calc lower h s (RegisterItem ident r)))) = ident
   \<and> dataRef (last (items (stateReducer calc lower h s (RegisterItem ident r)))) = r
   \<and> last (items (stateReducer calc lower h s (RegisterItem ident r))) \<notin> set (items s)
   \<and> menuState (stateReducer calc lower h s (RegisterItem ident r)) = menuState s
   \<and> searchQuery (stateReducer calc lower h s (RegisterItem ident r)) = searchQuery s
   \<and> activeItemIndex (stateReducer calc lower h s (RegisterItem ident r)) = activeItemIndex s
   \<and> shouldClose (stateReducer calc lower h s (RegisterItem ident r)) = shouldClose s
   \<and> buttonRef (stateReducer calc lower h s (RegisterItem ident r)) = buttonRef s
   \<and> itemsRef (stateReducer calc lower h s (RegisterItem ident r)) = itemsRef s"
proof -
  have "\<lparr>obj = newObj (items s), item_id = ident, dataRef = r\<rparr> \<notin> set (items s)"
    using newObj_fresh [of "\<lparr>obj = newObj (items s), item_id = ident, dataRef = r\<rparr>" "items s"]
    by auto
  then show ?thesis by (simp add: registerItem_def)
qed

text \<open>What UnregisterItem leaves of the list, and where the active entry is found again.\<close>

lemma unregisterItem_items:
  "items (unregisterItem s ident) =
     (if findIndex (\<lambda>a. item_id a = ident) (items s) = - 1 then items s
      else splice1 (findIndex (\<lambda>a. item_id a = ident) (items s)) (items s))"
  by (simp add: unregisterItem_def Let_def)

lemma unregisterItem_active_removed:
  assumes "activeItemIndex s = Some (findIndex (\<lambda>a. item_id a = ident) (items s))"
  shows "activeItemIndex (unregisterItem s ident) = None"
  using assms by (simp add: unregisterItem_def Let_def)

lemma unregisterItem_active_kept:
  assumes act: "activeItemIndex s = Some i" and lo: "0 \<le> i" and hi: "i < int (length (items s))"
    and other: "findIndex (\<lambda>a. item_id a = ident) (items s) \<noteq> i"
  shows "\<exists>j<length (items (unregisterItem s ident)).
           activeItemIndex (unregisterItem s ident) = Some (int j)
           \<and> items (unregisterItem s ident) ! j = items s ! nat i
           \<and> (\<forall>k<j. items (unregisterItem s ident) ! k \<noteq> items s ! nat i)"
proof -
  let ?idx = "findIndex (\<lambda>a. item_id a = ident) (items s)"
  let ?next = "items (unregisterItem s ident)"
  have n: "nat i < length (items s)" using lo hi by simp
  have cur: "at_index (items s) i = Object (items s ! nat i)"
    using lo hi by (simp add: at_index_def)
  have a: "activeItemIndex (unregisterItem s ident) = Some (indexOf ?next (Object (items s ! nat i)))"
    using act other cur by (simp add: unregisterItem_def Let_def)
  have "items s ! nat i \<in> set ?next"
  proof (cases "?idx = - 1")
    case True
    then show ?thesis using n by (simp add: unregisterItem_items)
  next
    case False
    from findIndex_found [OF this] obtain k where k: "k < length (items s)" "?idx = int k"
      by blast
    with other lo have "nat i \<noteq> k" by auto
    from splice1_keeps [OF n k(1) this] show ?thesis
      using False k(2) by (simp add: unregisterItem_items splice1_def)
  qed
  from indexOf_mem [OF this] a show ?thesis by auto
qed

lemma registration_preserves_activeItemOk:
  assumes ok: "activeItemOk h s" and reg: "isRegistration a"
  shows "activeItemOk h (stateReducer calc lower h' s a)"
proof (cases a)
  case (RegisterItem ident r)
  with ok show ?thesis
    by (auto simp add: activeItemOk_def registerItem_def nth_append split: option.splits)
next
  case (UnregisterItem ident)
  show ?thesis
  proof (cases "activeItemIndex s")
    case None
    then show ?thesis using UnregisterItem
      by (simp add: activeItemOk_def unregisterItem_def Let_def)
  next
    case (Some i)
    with ok have i: "0 \<le> i" "i < int (length (items s))"
      and en: "\<not> disabled (h (dataRef (items s ! nat i)))"
      by (simp_all add: activeItemOk_def)
    show ?thesis
    proof (cases "findIndex (\<lambda>a. item_id a = ident) (items s) = i")
      case True
      with Some have "activeItemIndex (unregisterItem s ident) = None"
        by (simp add: unregisterItem_active_removed)
      then show ?thesis using UnregisterItem by (simp add: activeItemOk_def)
    next
      case False
      from unregisterItem_active_kept [OF Some i False] en show ?thesis
        using UnregisterItem by (auto simp add: activeItemOk_def)
    qed
  qed
qed (use reg in simp_all)

lemma registrations_preserve_activeItemOk:
  assumes "activeItemOk h s" and "\<forall>st\<in>set steps. isRegistration (snd st)"
  shows "activeItemOk h (dispatchAll calc lower s steps)"
  using assms
proof (induction steps arbitrary: s)
  case Nil
  then show ?case by (simp add: dispatchAll_def)
next
  case (Cons st steps)
  obtain h' a where st: "st = (h', a)" by (cases st)
  with Cons.prems have "activeItemOk h (stateReducer calc lower h' s a)"
    by (simp add: registration_preserves_activeItemOk)
  with Cons.prems have "activeItemOk h (dispatchAll calc lower (stateReducer calc lower h' s a) steps)"
    by (intro Cons.IH) simp_all
  then show ?case by (simp add: dispatchAll_def st)
qed

lemma registration_keeps_null:
  assumes "activeItemIndex s = None" and "isRegistration a"
  shows "activeItemIndex (stateReducer calc lower h s a) = None"
  using assms by (cases a) (simp_all add: registerItem_def unregisterItem_def Let_def)

lemma registrations_keep_null:
  assumes "activeItemIndex s = None" and "\<forall>st\<in>set steps. isRegistration (snd st)"
  shows "activeItemIndex (dispatchAll calc lower s steps) = None"
  using assms
proof (induction steps arbitrary: s)
  case Nil
  then show ?case by (simp add: dispatchAll_def)
next
  case (Cons st steps)
  obtain h a where st: "st = (h, a)" by (cases st)
  with Cons.prems have "activeItemIndex (stateReducer calc lower h s a) = None"
    by (simp add: registration_keeps_null)
  with Cons.prems have "activeItemIndex (dispatchAll calc lower (stateReducer calc lower h s a) steps) = None"
    by (intro Cons.IH) simp_all
  then show ?case by (simp add: dispatchAll_def st)
qed

text \<open>
  C1. After any sequence of RegisterItem and UnregisterItem actions, under whatever heaps
  they are dispatched, the active index is null or is a valid index of the current item
  list whose entry is not disabled: this holds of the run that starts in the initial state
  (no items, active index null), and of the run that starts in any state that has the
  property, its active index null or not, the disabled flags being read from one heap
  before and after.
\<close>

theorem registrations_active_valid:
  assumes "\<forall>st\<in>set steps. isRegistration (snd st)"
  shows "activeItemOk h (dispatchAll calc lower (initialState b i sc) steps)
         \<and> (activeItemOk h s \<longrightarrow> activeItemOk h (dispatchAll calc lower s steps))"
proof -
  have "activeItemOk h (initialState b i sc)"
    by (simp add: activeItemOk_def initialState_def)
  from registrations_preserve_activeItemOk [OF this assms]
    registrations_preserve_activeItemOk [OF _ assms, of h s]
  show ?thesis by blast
qed

theorem registrations_active_valid_witness:
  "activeItemOk exHeap exState
   \<and> activeItemIndex exState = Some 2
   \<and> activeItemOk exHeap (dispatchAll (\<lambda>f r. None) asciiLowerCase exState exSteps)
   \<and> activeItemIndex (dispatchAll (\<lambda>f r. None) asciiLowerCase exState exSteps) = Some 1
   \<and> map item_id (items (dispatchAll (\<lambda>f r. None) asciiLowerCase exState exSteps))
       = [''item-2'', ''item-3'', ''item-1'', ''item-3'']
   \<and> activeItemOk exHeap
        (dispatchAll (\<lambda>f r. None) asciiLowerCase (initialState 10 11 None) exSteps)"
proof -
  have steps: "\<forall>st\<in>set exSteps. isRegistration (snd st)" by (simp add: exSteps_def)
  have start: "activeItemOk exHeap exState"
    by (simp add: activeItemOk_def exState_def exItems_def exHeap_def)
  have run: "dispatchAll (\<lambda>f r. None) asciiLowerCase exState exSteps =
      exState\<lparr>items :=
          [\<lparr>obj = 1, item_id = ''item-2'', dataRef = 1\<rparr>,
           \<lparr>obj = 2, item_id = ''item-3'', dataRef = 2\<rparr>,
           \<lparr>obj = 3, item_id = ''item-1'', dataRef = 0\<rparr>,
           \<lparr>obj = 4, item_id = ''item-3'', dataRef = 2\<rparr>],
        activeItemIndex := Some 1\<rparr>"
    by (simp add: dispatchAll_def exSteps_def exState_def exItems_def registerItem_def
        unregisterItem_def Let_def findIndex_def splice1_def newObj_def at_index_def indexOf_def)
  from registrations_active_valid
    [OF steps, where calc = "\<lambda>f r. None" and lower = asciiLowerCase and h = exHeap
      and s = exState and b = 10 and i = 11 and sc = None]
    start
  have "activeItemOk exHeap (dispatchAll (\<lambda>f r. None) asciiLowerCase exState exSteps)
    \<and> activeItemOk exHeap
        (dispatchAll (\<lambda>f r. None) asciiLowerCase (initialState 10 11 None) exSteps)"
    by simp
  with start run show ?thesis by (simp add: exState_def)
qed

lemma unregisterItem_active_position:
  assumes act: "activeItemIndex s = Some i" and lo: "0 \<le> i" and hi: "i < int (length (items s))"
    and other: "ident \<noteq> item_id (items s ! nat i)" and dist: "distinct (items s)"
  shows "activeItemIndex (unregisterItem s ident)
           = Some (if \<exists>k<nat i. item_id (items s ! k) = ident then i - 1 else i)"
proof -
  let ?xs = "items s"
  let ?idx = "findIndex (\<lambda>a. item_id a = ident) ?xs"
  let ?next = "items (unregisterItem s ident)"
  let ?n = "nat i"
  have n: "?n < length ?xs" using lo hi by simp
  have ne: "?idx \<noteq> i"
  proof
    assume eq: "?idx = i"
    then have "?idx \<noteq> - 1" using lo by simp
    from findIndex_found [OF this] eq other show False by auto
  qed
  from unregisterItem_active_kept [OF act lo hi ne]
  obtain j where j: "j < length ?next" "activeItemIndex (unregisterItem s ident) = Some (int j)"
    "?next ! j = ?xs ! ?n"
    by blast
  show ?thesis
  proof (cases "?idx = - 1")
    case True
    then have none: "\<forall>x\<in>set ?xs. item_id x \<noteq> ident" by (simp add: findIndex_none)
    have "\<not> (\<exists>k<?n. item_id (?xs ! k) = ident)"
    proof
      assume "\<exists>k<?n. item_id (?xs ! k) = ident"
      then obtain k where "k < ?n" "item_id (?xs ! k) = ident" by blast
      moreover from this n have "?xs ! k \<in> set ?xs" by simp
      ultimately show False using none by blast
    qed
    moreover from True have "?next = ?xs" by (simp add: unregisterItem_items)
    with j dist n have "j = ?n" by (simp add: nth_eq_iff_index_eq)
    ultimately show ?thesis using j(2) lo by simp
  next
    case False
    from findIndex_found [OF this] obtain k where k: "k < length ?xs" "?idx = int k"
      "item_id (?xs ! k) = ident" "\<forall>m<k. item_id (?xs ! m) \<noteq> ident"
      by blast
    from k(3) other have kn: "k \<noteq> ?n" by auto
    have next_eq: "?next = take k ?xs @ drop (Suc k) ?xs"
      using False k(2) by (simp add: unregisterItem_items splice1_def)
    have dn: "distinct ?next" unfolding next_eq by (rule splice1_distinct [OF dist])
    have len: "length ?next = length ?xs - 1" using k(1) by (simp add: next_eq)
    have before: "(\<exists>m<?n. item_id (?xs ! m) = ident) = (k < ?n)"
    proof
      assume "\<exists>m<?n. item_id (?xs ! m) = ident"
      then obtain m where m: "m < ?n" "item_id (?xs ! m) = ident" by blast
      with k(4) have "\<not> m < k" by blast
      with m(1) show "k < ?n" by simp
    next
      assume "k < ?n"
      with k(3) show "\<exists>m<?n. item_id (?xs ! m) = ident" by blast
    qed
    show ?thesis
    proof (cases "k < ?n")
      case True
      with n have m: "?n - 1 < length ?xs - 1" by simp
      from splice1_nth [OF k(1) m] True have "?next ! (?n - 1) = ?xs ! ?n"
        by (simp add: next_eq)
      with j(3) have "?next ! j = ?next ! (?n - 1)" by simp
      with dn j(1) m len have "j = ?n - 1" by (simp add: nth_eq_iff_index_eq)
      with before True j(2) lo show ?thesis by simp
    next
      case False
      with kn have gt: "?n < k" by simp
      with k(1) have m: "?n < length ?xs - 1" by simp
      from splice1_nth [OF k(1) m] gt have "?next ! ?n = ?xs ! ?n"
        by (simp add: next_eq)
      with j(3) have "?next ! j = ?next ! ?n" by simp
      with dn j(1) m len have "j = ?n" by (simp add: nth_eq_iff_index_eq)
      with before False j(2) lo show ?thesis by simp
    qed
  qed
qed

text \<open>
  C2, as it holds of the code. Let the active index \<open>i\<close> be a valid index of the item
  list. Unregistering the id of the active item yields a null active index when no earlier
  item carries that id. Unregistering any id other than the active item's yields an active
  index that is a valid index of the new list, holds the very record that was active, and
  is the first position of that record; when no record occurs twice in the list, that
  index is \<open>i - 1\<close> if the removed item stood before the active one and \<open>i\<close> otherwise.
\<close>

theorem unregisterItem_active:
  assumes act: "activeItemIndex s = Some i" and lo: "0 \<le> i" and hi: "i < int (length (items s))"
  shows "((\<forall>j<nat i. item_id (items s ! j) \<noteq> item_id (items s ! nat i)) \<longrightarrow>
            activeItemIndex (stateReducer calc lower h s (UnregisterItem (item_id (items s ! nat i))))
              = None)
         \<and> (ident \<noteq> item_id (items s ! nat i) \<longrightarrow>
              (\<exists>j<length (items (stateReducer calc lower h s (UnregisterItem ident))).
                 activeItemIndex (stateReducer calc lower h s (UnregisterItem ident)) = Some (int j)
                 \<and> items (stateReducer calc lower h s (UnregisterItem ident)) ! j = items s ! nat i
                 \<and> (\<forall>k<j. items (stateReducer calc lower h s (UnregisterItem ident)) ! k
                             \<noteq> items s ! nat i)))
         \<and> (ident \<noteq> item_id (items s ! nat i) \<and> distinct (items s) \<longrightarrow>
              activeItemIndex (stateReducer calc lower h s (UnregisterItem ident))
                = Some (if \<exists>k<nat i. item_id (items s ! k) = ident then i - 1 else i))"
proof (intro conjI impI)
  assume first: "\<forall>j<nat i. item_id (items s ! j) \<noteq> item_id (items s ! nat i)"
  have "nat i < length (items s)" using lo hi by simp
  from findIndex_eqI [of "nat i" "items s" "\<lambda>a. item_id a = item_id (items s ! nat i)", OF this]
    first lo
  have "findIndex (\<lambda>a. item_id a = item_id (items s ! nat i)) (items s) = i" by simp
  with act show "activeItemIndex
      (stateReducer calc lower h s (UnregisterItem (item_id (items s ! nat i)))) = None"
    by (simp add: unregisterItem_active_removed)
next
  assume other: "ident \<noteq> item_id (items s ! nat i)"
  have "findIndex (\<lambda>a. item_id a = ident) (items s) \<noteq> i"
  proof
    assume eq: "findIndex (\<lambda>a. item_id a = ident) (items s) = i"
    then have "findIndex (\<lambda>a. item_id a = ident) (items s) \<noteq> - 1" using lo by simp
    from findIndex_found [OF this] eq other show False by auto
  qed
  from unregisterItem_active_kept [OF act lo hi this]
  show "\<exists>j<length (items (stateReducer calc lower h s (UnregisterItem ident))).
          activeItemIndex (stateReducer calc lower h s (UnregisterItem ident)) = Some (int j)
          \<and> items (stateReducer calc lower h s (UnregisterItem ident)) ! j = items s ! nat i
          \<and> (\<forall>k<j. items (stateReducer calc lower h s (UnregisterItem ident)) ! k \<noteq> items s ! nat i)"
    by simp
next
  assume "ident \<noteq> item_id (items s ! nat i) \<and> distinct (items s)"
  with unregisterItem_active_position [OF act lo hi, of ident]
  show "activeItemIndex (stateReducer calc lower h s (UnregisterItem ident))
          = Some (if \<exists>k<nat i. item_id (items s ! k) = ident then i - 1 else i)"
    by simp
qed

theorem unregisterItem_active_witness:
  "activeItemIndex (stateReducer (\<lambda>f r. None) asciiLowerCase exHeap exState (UnregisterItem ''item-3'')) = None
   \<and> activeItemIndex (stateReducer (\<lambda>f r. None) asciiLowerCase exHeap exState (UnregisterItem ''item-1''))
       = Some 1
   \<and> activeItemIndex (stateReducer (\<lambda>f r. None) asciiLowerCase exHeap exState (UnregisterItem ''item-2''))
       = Some 1"
proof -
  have act: "activeItemIndex exState = Some 2" and lo: "(0::int) \<le> 2"
    and hi: "2 < int (length (items exState))"
    by (simp_all add: exState_def exItems_def)
  have n: "nat 2 = Suc (Suc 0)" by simp
  have first: "\<forall>j<nat 2. item_id (items exState ! j) \<noteq> item_id (items exState ! nat 2)"
    unfolding n by (simp add: exState_def exItems_def less_Suc_eq)
  have cur: "item_id (items exState ! nat 2) = ''item-3''"
    by (simp add: n exState_def exItems_def)
  have dist: "distinct (items exState)" by (simp add: exState_def exItems_def)
  have b1: "\<exists>k<nat 2. item_id (items exState ! k) = ''item-1''"
    by (intro exI [of _ 0]) (simp add: exState_def exItems_def)
  have b2: "\<exists>k<nat 2. item_id (items exState ! k) = ''item-2''"
    by (intro exI [of _ "Suc 0"]) (simp add: exState_def exItems_def)
  from unregisterItem_active [OF act lo hi, where calc = "\<lambda>f r. None"
      and lower = asciiLowerCase and h = exHeap and ident = "''item-1''"] first cur dist b1
  have "activeItemIndex (stateReducer (\<lambda>f r. None) asciiLowerCase exHeap exState (UnregisterItem ''item-3''))
          = None
        \<and> activeItemIndex (stateReducer (\<lambda>f r. None) asciiLowerCase exHeap exState (UnregisterItem ''item-1''))
          = Some 1"
    by simp
  moreover
  from unregisterItem_active [OF act lo hi, where calc = "\<lambda>f r. None"
      and lower = asciiLowerCase and h = exHeap and ident = "''item-2''"] cur dist b2
  have "activeItemIndex (stateReducer (\<lambda>f r. None) asciiLowerCase exHeap exState (UnregisterItem ''item-2''))
          = Some 1"
    by simp
  ultimately show ?thesis by simp
qed

lemma dupState_eq:
  "dupState =
     \<lparr>menuState = Closed, buttonRef = 10, itemsRef = 11,
      items = [\<lparr>obj = 0, item_id = ''item-1'', dataRef = 1\<rparr>,
               \<lparr>obj = 1, item_id = ''item-1'', dataRef = 0\<rparr>],
      searchQuery = ''a'', activeItemIndex = Some 1, shouldClose = (\<lambda>e. True)\<rparr>"
  by (simp add: dupState_def dupSteps_def dispatchAll_def initialState_def registerItem_def
      newObj_def search_def Let_def findIndex_def searchMatches_def exHeap_def startsWith_def
      asciiLowerCase_def lowerChar_simps)

text \<open>
  The lookup of the item to remove is by id and takes the first item of that id. With two
  items under one id and the second one active, unregistering the id of the active item
  removes the first item and leaves the second one active, at index 0.
\<close>

theorem unregisterItem_duplicate_id_counterexample:
  "activeItemIndex dupState = Some 1
   \<and> item_id (items dupState ! 1) = ''item-1''
   \<and> activeItemIndex (stateReducer (\<lambda>f r. None) asciiLowerCase exHeap dupState (UnregisterItem ''item-1''))
       = Some 0"
  by (simp add: dupState_eq unregisterItem_def Let_def findIndex_def splice1_def at_index_def
      indexOf_def)

subsection \<open>Search\<close>

text \<open>
  C3, as it holds of the code. Search with value \<open>v\<close> sets the buffer to the old buffer
  followed by \<open>v\<close> in lower case, \<open>lower v\<close> for JavaScript's lowering function. If \<open>j\<close> is the first index of an item that is not
  disabled and whose stored label starts with the new buffer, compared exactly, the active
  index becomes \<open>j\<close> (which leaves it as it is when it was \<open>j\<close>); if no item is such, the
  active index is unchanged.
\<close>

theorem search_appends_and_matches:
  "searchQuery (stateReducer calc lower h s (Search v)) = searchQuery s @ lower v
   \<and> (isFirstIndex (\<lambda>it. \<not> disabled (h (dataRef it))
                        \<and> labelStartsWith h (searchQuery s @ lower v) it) (items s) j
        \<longrightarrow> activeItemIndex (stateReducer calc lower h s (Search v)) = Some (int j))
   \<and> ((\<forall>it\<in>set (items s). \<not> (\<not> disabled (h (dataRef it))
                        \<and> labelStartsWith h (searchQuery s @ lower v) it))
        \<longrightarrow> activeItemIndex (stateReducer calc lower h s (Search v)) = activeItemIndex s)"
proof -
  let ?q = "searchQuery s @ lower v"
  let ?p = "\<lambda>it. \<not> disabled (h (dataRef it)) \<and> labelStartsWith h ?q it"
  have p: "searchMatches h ?q = ?p" by (rule ext) (rule searchMatches_iff)
  have q: "searchQuery (search lower h s v) = ?q" by (simp add: search_def Let_def)
  have found: "activeItemIndex (search lower h s v) = Some (int j)" if "isFirstIndex ?p (items s) j"
  proof -
    from that have "findIndex ?p (items s) = int j" by (intro findIndex_eqI) simp_all
    then show ?thesis by (auto simp add: search_def Let_def p)
  qed
  have absent: "activeItemIndex (search lower h s v) = activeItemIndex s"
    if "\<forall>it\<in>set (items s). \<not> ?p it"
  proof -
    from that have "findIndex ?p (items s) = - 1" by (simp only: findIndex_none)
    then show ?thesis by (simp add: search_def Let_def p)
  qed
  from q found absent show ?thesis by simp
qed

theorem search_appends_and_matches_witness:
  "searchQuery (stateReducer (\<lambda>f r. None) asciiLowerCase exHeap exState (Search ''A'')) = ''a''
   \<and> activeItemIndex (stateReducer (\<lambda>f r. None) asciiLowerCase exHeap exState (Search ''A''))
       = Some 0
   \<and> activeItemIndex (stateReducer (\<lambda>f r. None) asciiLowerCase exHeap exState (Search ''Z''))
       = Some 2"
proof -
  have first: "isFirstIndex (\<lambda>it. \<not> disabled (exHeap (dataRef it))
      \<and> labelStartsWith exHeap (searchQuery exState @ asciiLowerCase ''A'') it) (items exState) 0"
    by (simp add: exState_def exItems_def exHeap_def labelStartsWith_def asciiLowerCase_def
        lowerChar_def)
  have none: "\<forall>it\<in>set (items exState). \<not> (\<not> disabled (exHeap (dataRef it))
      \<and> labelStartsWith exHeap (searchQuery exState @ asciiLowerCase ''Z'') it)"
    by (simp add: exState_def exItems_def exHeap_def labelStartsWith_def asciiLowerCase_def
        lowerChar_def)
  have "searchQuery exState @ asciiLowerCase ''A'' = ''a''"
    by (simp add: exState_def asciiLowerCase_def lowerChar_def)
  moreover have "activeItemIndex exState = Some 2" by (simp add: exState_def)
  ultimately show ?thesis
    using search_appends_and_matches [where calc = "\<lambda>f r. None" and lower = asciiLowerCase
        and h = exHeap and s = exState and v = "''A''" and j = 0] first
      search_appends_and_matches [where calc = "\<lambda>f r. None" and lower = asciiLowerCase
        and h = exHeap and s = exState and v = "''Z''" and j = 0] none
    by simp
qed

text \<open>
  Only the typed value is put in lower case: the stored label is compared as it is. An
  enabled item labelled "Apple" starts with the buffer "a" when case is ignored, and is
  not the active item, yet Search "a" leaves the active index null.
\<close>

theorem search_case_sensitive_counterexample:
  "\<not> disabled (capHeap (dataRef (items capState ! 0)))
   \<and> textValue (capHeap (dataRef (items capState ! 0))) = Some ''Apple''
   \<and> caseInsensitiveStartsWith asciiLowerCase ''Apple'' (searchQuery capState @ ''a'')
   \<and> activeItemIndex capState \<noteq> Some 0
   \<and> activeItemIndex (stateReducer (\<lambda>f r. None) asciiLowerCase capHeap capState (Search ''a''))
       = None"
  by (simp add: capState_def capHeap_def caseInsensitiveStartsWith_def startsWith_def
      asciiLowerCase_def lowerChar_def search_def Let_def findIndex_def searchMatches_def)

text \<open>
  The Item widget stores labels in lower case. For a label and a buffer that lower-casing
  leaves as they are, the exact comparison is the one that ignores case.
\<close>

lemma search_case_insensitive_when_lowercase:
  assumes "lower t = t" and "lower (searchQuery (search lower h s v)) = searchQuery (search lower h s v)"
  shows "startsWith t (searchQuery (search lower h s v))
           = caseInsensitiveStartsWith lower t (searchQuery (search lower h s v))"
  using assms by (simp add: caseInsensitiveStartsWith_def)

subsection \<open>OpenMenu and CloseMenu\<close>

text \<open>
  C5, as it holds of the code. Dispatching OpenMenu twice gives the state that dispatching
  it once gives, and so does CloseMenu. After CloseMenu the menu state is Closed; the active
  index is null when the menu was open, and a state that is Closed already is returned
  as it is, whatever its active index.
\<close>

theorem open_close_idempotent:
  "stateReducer calc lower h (stateReducer calc lower h s OpenMenu) OpenMenu
       = stateReducer calc lower h s OpenMenu
   \<and> stateReducer calc lower h (stateReducer calc lower h s CloseMenu) CloseMenu
       = stateReducer calc lower h s CloseMenu
   \<and> menuState (stateReducer calc lower h s CloseMenu) = Closed
   \<and> activeItemIndex (stateReducer calc lower h s CloseMenu)
       = (if menuState s = Open then None else activeItemIndex s)
   \<and> (menuState s = Closed \<longrightarrow> stateReducer calc lower h s CloseMenu = s)
   \<and> (menuState s = Open \<longrightarrow>
        stateReducer calc lower h s CloseMenu = s\<lparr>activeItemIndex := None, menuState := Closed\<rparr>)"
proof -
  have "menuState s = Open \<or> menuState s = Closed" by (cases "menuState s") simp_all
  then show ?thesis by (auto simp add: closeMenu_def openMenu_def)
qed

theorem open_close_idempotent_witness:
  "stateReducer (\<lambda>f r. None) asciiLowerCase exHeap (exState\<lparr>menuState := Closed\<rparr>) CloseMenu
       = exState\<lparr>menuState := Closed\<rparr>
   \<and> stateReducer (\<lambda>f r. None) asciiLowerCase exHeap exState CloseMenu
       = exState\<lparr>activeItemIndex := None, menuState := Closed\<rparr>
   \<and> activeItemIndex (stateReducer (\<lambda>f r. None) asciiLowerCase exHeap exState CloseMenu) = None"
proof -
  have closed: "menuState (exState\<lparr>menuState := Closed\<rparr>) = Closed" by simp
  have opened: "menuState exState = Open" by (simp add: exState_def)
  from open_close_idempotent [where calc = "\<lambda>f r. None" and lower = asciiLowerCase
      and h = exHeap and s = "exState\<lparr>menuState := Closed\<rparr>"] closed
  have "stateReducer (\<lambda>f r. None) asciiLowerCase exHeap (exState\<lparr>menuState := Closed\<rparr>) CloseMenu
       = exState\<lparr>menuState := Closed\<rparr>"
    by blast
  moreover
  from open_close_idempotent [where calc = "\<lambda>f r. None" and lower = asciiLowerCase
      and h = exHeap and s = exState] opened
  have "stateReducer (\<lambda>f r. None) asciiLowerCase exHeap exState CloseMenu
       = exState\<lparr>activeItemIndex := None, menuState := Closed\<rparr>
     \<and> activeItemIndex (stateReducer (\<lambda>f r. None) asciiLowerCase exHeap exState CloseMenu) = None"
    by simp
  ultimately show ?thesis by simp
qed

text \<open>
  A closed menu can have an active item (GoToItem and Search do not look at the menu
  state); CloseMenu returns such a state unchanged, with its active index.
\<close>

theorem closeMenu_closed_keeps_active_counterexample:
  "menuState (exState\<lparr>menuState := Closed\<rparr>) = Closed
   \<and> activeItemIndex
        (stateReducer (\<lambda>f r. None) asciiLowerCase exHeap (exState\<lparr>menuState := Closed\<rparr>) CloseMenu)
       = Some 2"
  by (simp add: closeMenu_def exState_def)

subsection \<open>GoToItem\<close>

text \<open>
  C6. After GoToItem, for every focus (Specific with any id included) and whatever
  calculateActiveIndex returns, the search buffer is empty, and menuState, buttonRef,
  itemsRef, items and shouldClose are those of the input state: only searchQuery and
  activeItemIndex can differ.
\<close>

theorem goToItem_clears_search_frame:
  "searchQuery (stateReducer calc lower h s (GoToItem f)) = ''''
   \<and> menuState (stateReducer calc lower h s (GoToItem f)) = menuState s
   \<and> buttonRef (stateReducer calc lower h s (GoToItem f)) = buttonRef s
   \<and> itemsRef (stateReducer calc lower h s (GoToItem f)) = itemsRef s
   \<and> items (stateReducer calc lower h s (GoToItem f)) = items s
   \<and> shouldClose (stateReducer calc lower h s (GoToItem f)) = shouldClose s"
  by (simp add: goToItem_def Let_def)

lemma findLastIndex_none: "\<forall>x\<in>set xs. \<not> p x \<Longrightarrow> findLastIndex p xs = - 1"
proof -
  assume "\<forall>x\<in>set xs. \<not> p x"
  then have "\<forall>x\<in>set (rev xs). \<not> p x" by simp
  then have "findIndex p (rev xs) = - 1" by (simp only: findIndex_none)
  then show ?thesis by (simp add: findLastIndex_def)
qed

lemma findLastIndex_eqI:
  assumes "isLastIndex p xs j"
  shows "findLastIndex p xs = int j"
proof -
  let ?m = "length xs - Suc j"
  from assms have j: "j < length xs" by simp
  then have m: "?m < length (rev xs)" by simp
  have at: "rev xs ! ?m = xs ! j" using j by (simp add: rev_nth)
  have before: "\<forall>k<?m. \<not> p (rev xs ! k)"
  proof (intro allI impI)
    fix k assume k: "k < ?m"
    then have "rev xs ! k = xs ! (length xs - Suc k)" by (simp add: rev_nth)
    moreover from k j have "length xs - Suc k < length xs" "j < length xs - Suc k" by simp_all
    ultimately show "\<not> p (rev xs ! k)" using assms by simp
  qed
  from assms at have "p (rev xs ! ?m)" by simp
  from findIndex_eqI [OF m this before] have "findIndex p (rev xs) = int ?m" .
  with j show ?thesis by (simp add: findLastIndex_def)
qed

lemma goToItem_active:
  "activeItemIndex (goToItem calc h s f) =
     calc f \<lparr>resolveItems = (\<lambda>_. items s), resolveActiveIndex = (\<lambda>_. activeItemIndex s),
             resolveId = item_id, resolveDisabled = (\<lambda>item. disabled (h (dataRef item)))\<rparr>"
  by (simp add: goToItem_def Let_def)

text \<open>
  C4. With the modelled calculateActiveIndex: if \<open>j\<close> is the first index of an item whose
  disabled flag is false, GoToItem First makes \<open>j\<close> the active index; if \<open>j\<close> is the last
  such index, GoToItem Last makes \<open>j\<close> the active index; and if every item is disabled,
  an empty list included, both make the active index null.
\<close>

theorem goToItem_first_last:
  "(isFirstIndex (\<lambda>it. \<not> disabled (h (dataRef it))) (items s) j \<longrightarrow>
      activeItemIndex (stateReducer calculateActiveIndex lower h s (GoToItem First)) = Some (int j))
   \<and> (isLastIndex (\<lambda>it. \<not> disabled (h (dataRef it))) (items s) j \<longrightarrow>
      activeItemIndex (stateReducer calculateActiveIndex lower h s (GoToItem Last)) = Some (int j))
   \<and> ((\<forall>it\<in>set (items s). disabled (h (dataRef it))) \<longrightarrow>
      activeItemIndex (stateReducer calculateActiveIndex lower h s (GoToItem First)) = None
      \<and> activeItemIndex (stateReducer calculateActiveIndex lower h s (GoToItem Last)) = None)"
proof (intro conjI impI)
  assume "isFirstIndex (\<lambda>it. \<not> disabled (h (dataRef it))) (items s) j"
  then have "findIndex (\<lambda>it. \<not> disabled (h (dataRef it))) (items s) = int j"
    by (intro findIndex_eqI) simp_all
  then show "activeItemIndex (stateReducer calculateActiveIndex lower h s (GoToItem First)) = Some (int j)"
    by (simp add: goToItem_active calculateActiveIndex_def)
next
  assume "isLastIndex (\<lambda>it. \<not> disabled (h (dataRef it))) (items s) j"
  from findLastIndex_eqI [OF this]
  show "activeItemIndex (stateReducer calculateActiveIndex lower h s (GoToItem Last)) = Some (int j)"
    by (simp add: goToItem_active calculateActiveIndex_def)
next
  assume all: "\<forall>it\<in>set (items s). disabled (h (dataRef it))"
  then have "findIndex (\<lambda>it. \<not> disabled (h (dataRef it))) (items s) = - 1"
    by (simp add: findIndex_none)
  then show "activeItemIndex (stateReducer calculateActiveIndex lower h s (GoToItem First)) = None"
    by (simp add: goToItem_active calculateActiveIndex_def)
next
  assume all: "\<forall>it\<in>set (items s). disabled (h (dataRef it))"
  then have "findLastIndex (\<lambda>it. \<not> disabled (h (dataRef it))) (items s) = - 1"
    by (intro findLastIndex_none) simp
  then show "activeItemIndex (stateReducer calculateActiveIndex lower h s (GoToItem Last)) = None"
    by (simp add: goToItem_active calculateActiveIndex_def)
qed

theorem goToItem_first_last_witness:
  "activeItemIndex (stateReducer calculateActiveIndex asciiLowerCase exHeap
      (exState\<lparr>activeItemIndex := None\<rparr>) (GoToItem First)) = Some 0
   \<and> activeItemIndex (stateReducer calculateActiveIndex asciiLowerCase exHeap
      (exState\<lparr>activeItemIndex := None\<rparr>) (GoToItem Last)) = Some 2
   \<and> activeItemIndex (stateReducer calculateActiveIndex asciiLowerCase allDisabled exState (GoToItem First)) = None
   \<and> activeItemIndex (stateReducer calculateActiveIndex asciiLowerCase allDisabled exState (GoToItem Last)) = None"
proof -
  let ?s = "exState\<lparr>activeItemIndex := None\<rparr>"
  have first: "isFirstIndex (\<lambda>it. \<not> disabled (exHeap (dataRef it))) (items ?s) 0"
    by (simp add: exState_def exItems_def exHeap_def)
  have "\<forall>k<length (items ?s). Suc (Suc 0) < k \<longrightarrow> disabled (exHeap (dataRef (items ?s ! k)))"
    by (simp add: exState_def exItems_def)
  then have last: "isLastIndex (\<lambda>it. \<not> disabled (exHeap (dataRef it))) (items ?s) (Suc (Suc 0))"
    by (simp add: exState_def exItems_def exHeap_def)
  have none: "\<forall>it\<in>set (items exState). disabled (allDisabled (dataRef it))"
    by (simp add: allDisabled_def)
  from goToItem_first_last [where lower = asciiLowerCase and h = exHeap and s = "?s" and j = 0] first
  have "activeItemIndex (stateReducer calculateActiveIndex asciiLowerCase exHeap ?s (GoToItem First)) = Some 0"
    by simp
  moreover from goToItem_first_last [where lower = asciiLowerCase and h = exHeap and s = "?s" and j = "Suc (Suc 0)"] last
  have "activeItemIndex (stateReducer calculateActiveIndex asciiLowerCase exHeap ?s (GoToItem Last)) = Some 2"
    by simp
  moreover from goToItem_first_last [where lower = asciiLowerCase and h = allDisabled and s = exState and j = 0] none
  have "activeItemIndex (stateReducer calculateActiveIndex asciiLowerCase allDisabled exState (GoToItem First)) = None
    \<and> activeItemIndex (stateReducer calculateActiveIndex asciiLowerCase allDisabled exState (GoToItem Last)) = None"
    by simp
  ultimately show ?thesis by simp
qed

subsection \<open>SetShouldClose\<close>

text \<open>
  C7. SetShouldClose with a predicate \<open>p\<close> yields a state whose shouldClose is \<open>p\<close>;
  with no predicate it yields a state whose shouldClose is true of every event. All other
  fields are unchanged.
\<close>

theorem setShouldClose_replaces:
  "shouldClose (stateReducer calc lower h s (SetShouldClose (Some p))) = p
   \<and> (\<forall>e. shouldClose (stateReducer calc lower h s (SetShouldClose None)) e)
   \<and> menuState (stateReducer calc lower h s (SetShouldClose sc)) = menuState s
   \<and> buttonRef (stateReducer calc lower h s (SetShouldClose sc)) = buttonRef s
   \<and> itemsRef (stateReducer calc lower h s (SetShouldClose sc)) = itemsRef s
   \<and> items (stateReducer calc lower h s (SetShouldClose sc)) = items s
   \<and> searchQuery (stateReducer calc lower h s (SetShouldClose sc)) = searchQuery s
   \<and> activeItemIndex (stateReducer calc lower h s (SetShouldClose sc)) = activeItemIndex s"
  by (simp add: setShouldClose_def)

subsection \<open>useMenuContext\<close>

text \<open>
  C8. Without a provider (the context is null) useMenuContext throws an error. Its message
  names the missing parent, \<^verbatim>\<open><Menu />\<close>, and the sub-widget the caller passed,
  \<^verbatim>\<open><c />\<close> (\<^verbatim>\<open><Unknown />\<close> when the caller passed none). With a provider it returns
  the provider's value.
\<close>

theorem useMenuContext_missing_provider:
  "(\<exists>msg. useMenuContext (Some c) (None :: 'c option) = Inl (Error msg)
            \<and> sublist ''parent <Menu />'' msg \<and> sublist (''<'' @ c @ '' />'') msg)
   \<and> useMenuContext None (None :: 'c option)
       = Inl (Error ''<Unknown /> is missing a parent <Menu /> component.'')
   \<and> useMenuContext component (Some ctx) = Inr ctx"
proof -
  let ?msg = "''<'' @ c @ '' /> is missing a parent <Menu /> component.''"
  have "?msg = (''<'' @ c @ '' /> is missing a '') @ ''parent <Menu />'' @ '' component.''"
    by simp
  then have parent: "sublist ''parent <Menu />'' ?msg"
    unfolding sublist_def by blast
  have "?msg = [] @ (''<'' @ c @ '' />'') @ '' is missing a parent <Menu /> component.''"
    by simp
  then have child: "sublist (''<'' @ c @ '' />'') ?msg"
    unfolding sublist_def by blast
  have "useMenuContext (Some c) (None :: 'c option) = Inl (Error ?msg)"
    by (simp add: useMenuContext_def Menu_name_def)
  with parent child show ?thesis
    by (auto simp add: useMenuContext_def Menu_name_def)
qed

subsection \<open>compareNumbers\<close>

text \<open>
  C10. \<open>compareNumbers\<close> is antisymmetric, \<open>compareNumbers a b = - compareNumbers b a\<close>
  for all optional numbers; it is 0 when both are absent, 1 when only the first is
  present, -1 when only the second is, and for two present numbers it is the sign of
  their numeric comparison.
\<close>

theorem compareNumbers_antisymmetric:
  "compareNumbers a b = - compareNumbers b a
   \<and> compareNumbers None (None :: 'a::linorder number option) = 0
   \<and> compareNumbers (Some x) None = 1
   \<and> compareNumbers None (Some y) = - 1
   \<and> compareNumbers (Some (Num u)) (Some (Num v)) =
       (if u < v then - 1 else if v < u then 1 else 0)"
proof -
  have anti: "compareNumbers a b = - compareNumbers b a"
  proof (cases a)
    case None
    then show ?thesis by (cases b) (simp_all add: compareNumbers_def)
  next
    case (Some p)
    show ?thesis
    proof (cases b)
      case None
      with Some show ?thesis by (simp add: compareNumbers_def)
    next
      case (Some q)
      with \<open>a = Some p\<close> show ?thesis
        by (cases p; cases q) (auto simp add: compareNumbers_def)
    qed
  qed
  then show ?thesis by (simp add: compareNumbers_def)
qed

end
